theory Spec2Isabelle
  imports Main "HOL-Library.Word"
begin

section \<open>JavaScript strings\<close>

text \<open>
  A JavaScript string is a sequence of UTF-16 code units, and the regular expressions of
  \<^verbatim>\<open>employee_detail.js\<close> carry no \<^verbatim>\<open>u\<close> flag, so they work on code units. A code unit is a
  16-bit word.
\<close>

type_synonym jschar = "16 word"
type_synonym jsstring = "jschar list"

definition LF :: jschar where "LF = 0x0A"
definition CR :: jschar where "CR = 0x0D"
definition COMMA :: jschar where "COMMA = 0x2C"

text \<open>
  The class \<^verbatim>\<open>\s\<close> of a regular expression and the characters removed by
  \<^verbatim>\<open>String.prototype.trim\<close> are the same set: the WhiteSpace and LineTerminator code points
  of ECMAScript (TAB, LF, VT, FF, CR, SP, NBSP, the space separators of Unicode, LS, PS and
  ZWNBSP). All of them are single code units.
\<close>

definition isSpace :: "jschar \<Rightarrow> bool" where
  "isSpace c = (c \<in> {0x09, 0x0A, 0x0B, 0x0C, 0x0D, 0x20, 0xA0, 0x1680,
      0x2000, 0x2001, 0x2002, 0x2003, 0x2004, 0x2005, 0x2006, 0x2007, 0x2008, 0x2009, 0x200A,
      0x2028, 0x2029, 0x202F, 0x205F, 0x3000, 0xFEFF})"

text \<open>An ASCII literal as a JavaScript string.\<close>

definition js :: "string \<Rightarrow> jsstring" where
  "js s = map (\<lambda>c. of_nat (of_char c)) s"

section \<open>normalizeCommaNewlines\<close>

text \<open>
  \<^verbatim>\<open>v.replace(/\r\n/g, '\n')\<close>: a scan from the left; every CR LF pair becomes one LF, and
  the scan goes on behind the pair.
\<close>

fun replaceCRLF :: "jsstring \<Rightarrow> jsstring" where
  "replaceCRLF (c # d # cs) =
     (if c = CR \<and> d = LF then LF # replaceCRLF cs else c # replaceCRLF (d # cs))"
| "replaceCRLF cs = cs"

text \<open>
  \<^verbatim>\<open>v.replace(/,\s*(?!\n)/g, ',\n')\<close>. Behind a comma the greedy \<^verbatim>\<open>\s*\<close> first takes the
  longest run of white space and then gives characters back one at a time, until the
  negative lookahead \<^verbatim>\<open>(?!\n)\<close> holds at the place reached. \<open>matchSpacesNotLF s\<close> is what is
  left of \<open>s\<close> (the text behind the comma) after the match, or \<open>None\<close> when no length works.
\<close>

definition lookaheadNotLF :: "jsstring \<Rightarrow> bool" where
  "lookaheadNotLF s = (case s of [] \<Rightarrow> True | c # _ \<Rightarrow> c \<noteq> LF)"

definition matchSpacesNotLF :: "jsstring \<Rightarrow> jsstring option" where
  "matchSpacesNotLF s =
     map_option (\<lambda>k. drop k s)
       (find (\<lambda>k. lookaheadNotLF (drop k s)) (rev [0..<Suc (length (takeWhile isSpace s))]))"

text \<open>
  The longest run always works: what follows it is the end of the text or a character that
  is no white space, and LF is white space. So the match never gives a character back.
\<close>

lemma matchSpacesNotLF_greedy: "matchSpacesNotLF s = Some (dropWhile isSpace s)"
proof -
  let ?n = "length (takeWhile isSpace s)"
  have d: "drop ?n s = dropWhile isSpace s"
    by (simp add: dropWhile_eq_drop)
  have "lookaheadNotLF (dropWhile isSpace s)"
  proof (cases "dropWhile isSpace s")
    case Nil
    show ?thesis unfolding lookaheadNotLF_def Nil by simp
  next
    case (Cons c cs)
    then have "\<not> isSpace c" using hd_dropWhile[of isSpace s] by simp
    then have "c \<noteq> LF" by (auto simp: isSpace_def LF_def)
    then show ?thesis unfolding lookaheadNotLF_def Cons by simp
  qed
  then show ?thesis by (simp add: matchSpacesNotLF_def d)
qed

function replaceCommaSpaces :: "jsstring \<Rightarrow> jsstring" where
  "replaceCommaSpaces [] = []"
| "replaceCommaSpaces (c # cs) =
     (if c = COMMA then
        (case matchSpacesNotLF cs of
           Some rest \<Rightarrow> COMMA # LF # replaceCommaSpaces rest
         | None \<Rightarrow> c # replaceCommaSpaces cs)
      else c # replaceCommaSpaces cs)"
  by pat_completeness auto
termination
  by (relation "measure length")
     (auto simp: matchSpacesNotLF_greedy intro: le_imp_less_Suc length_dropWhile_le)

text \<open>\<^verbatim>\<open>.trim()\<close>: white space is removed at both ends.\<close>

definition trim :: "jsstring \<Rightarrow> jsstring" where
  "trim s = rev (dropWhile isSpace (rev (dropWhile isSpace s)))"

text \<open>
  \<^verbatim>\<open>v.replace(/\n{3,}/g, '\n\n')\<close>: where at least three LF start, the whole run of LF (the
  quantifier is greedy and nothing follows it) becomes two LF.
\<close>

function collapseNewlines :: "jsstring \<Rightarrow> jsstring" where
  "collapseNewlines [] = []"
| "collapseNewlines (c # cs) =
     (if 3 \<le> length (takeWhile (\<lambda>d. d = LF) (c # cs))
      then LF # LF # collapseNewlines (dropWhile (\<lambda>d. d = LF) cs)
      else c # collapseNewlines cs)"
  by pat_completeness auto
termination
  by (relation "measure length") (auto intro: le_imp_less_Suc length_dropWhile_le)

text \<open>
  The function from the element's value to the value written back. The value of a text
  area is always a string, and \<^verbatim>\<open>'' || ''\<close> is \<^verbatim>\<open>''\<close>, so \<^verbatim>\<open>el.value || ''\<close> is the value.
\<close>

definition normalizeValue :: "jsstring \<Rightarrow> jsstring" where
  "normalizeValue v = collapseNewlines (trim (replaceCommaSpaces (replaceCRLF v)))"

section \<open>The page\<close>

text \<open>
  The part of the document the controller reads and writes. A tab carries the value of its
  \<^verbatim>\<open>data-target\<close> attribute (\<^verbatim>\<open>dataset.target\<close> is undefined when the attribute is missing),
  the class \<^verbatim>\<open>active\<close> and the attribute \<^verbatim>\<open>aria-selected\<close>.
\<close>

record tabEl =
  tabTarget :: "jsstring option"
  tabActive :: bool
  tabSelected :: "jsstring option"

record sectionEl =
  secId :: jsstring
  secActive :: bool
  secHidden :: bool

datatype tagName = Input | Select | Textarea

record fieldEl =
  fieldTag :: tagName
  fieldReadonly :: bool
  fieldAutoList :: bool
  fieldAutoGrow :: bool
  fieldValue :: jsstring
  fieldDisabled :: bool

text \<open>The calls that submit the form.\<close>

datatype submitCall = RequestSubmit | Submit

text \<open>
  \<open>tabs\<close> are the elements that match \<^verbatim>\<open>.tab[role="tab"]\<close> and \<open>otherTabs\<close> the elements of
  class \<^verbatim>\<open>tab\<close> with another role (the PDF icon, \<^verbatim>\<open>role="button"\<close>), \<open>sections\<close> the elements
  of class \<^verbatim>\<open>profile-section\<close>, \<open>formFields\<close> the \<^verbatim>\<open>input\<close>, \<^verbatim>\<open>select\<close> and \<^verbatim>\<open>textarea\<close> elements
  inside \<^verbatim>\<open>#detail-form\<close>, each list in document order. \<open>editBtn\<close> is the text of \<^verbatim>\<open>#edit-btn\<close>,
  \<open>saveBtn\<close> the inline \<^verbatim>\<open>display\<close> of \<^verbatim>\<open>#save-btn\<close>, \<open>loading\<close> the class \<^verbatim>\<open>active\<close> of
  \<^verbatim>\<open>#loading\<close>; each is \<open>None\<close> when the element is missing. \<open>focus\<close> is the index of the tab
  that has the focus. \<open>dirty\<close> is the variable of the closure. \<open>pasteTimers\<close> are the pending
  \<^verbatim>\<open>setTimeout(..., 0)\<close> callbacks of the paste listeners (each with the index of its text
  area), \<open>submitTimers\<close> counts the pending \<^verbatim>\<open>setTimeout(() => form.submit(), 300)\<close>
  callbacks, and \<open>submits\<close> lists the submissions requested so far.

  The inline height and overflow that \<^verbatim>\<open>autoResize\<close> writes come from the layout
  (\<^verbatim>\<open>scrollHeight\<close>) and are not part of the page; \<^verbatim>\<open>autoResize\<close>, \<^verbatim>\<open>resizeTextareasIn\<close> and the
  animation frames that call them write nothing else.
\<close>

record page =
  hasForm :: bool
  hasRequestSubmit :: bool
  tabs :: "tabEl list"
  otherTabs :: "tabEl list"
  sections :: "sectionEl list"
  formFields :: "fieldEl list"
  editBtn :: "jsstring option"
  saveBtn :: "jsstring option"
  loading :: "bool option"
  focus :: "nat option"
  dirty :: bool
  pasteTimers :: "nat list"
  submitTimers :: nat
  submits :: "submitCall list"

text \<open>
  The labels that the edit control gets, two Hangul syllables each: U+CDE8 U+C18C (cancel)
  and U+C218 U+C815 (edit).
\<close>

definition cancelLabel :: jsstring where
  "cancelLabel = [0xCDE8, 0xC18C]"

definition editLabel :: jsstring where
  "editLabel = [0xC218, 0xC815]"

section \<open>The controller of employee_detail.js\<close>

subsection \<open>Tabs\<close>

text \<open>
  \<^verbatim>\<open>activateTab(tab)\<close> for the tab at index \<open>i\<close> of \<open>tabs\<close>: \<^verbatim>\<open>t === tab\<close> compares elements, that
  is, indices; \<^verbatim>\<open>String(active)\<close> is \<^verbatim>\<open>"true"\<close> or \<^verbatim>\<open>"false"\<close>.
\<close>

definition activateTab :: "nat \<Rightarrow> page \<Rightarrow> page" where
  "activateTab i p =
     (let targetId = tabTarget (tabs p ! i) in
      p\<lparr>tabs := map (\<lambda>(j, t). t\<lparr>tabActive := (j = i),
                tabSelected := Some (if j = i then js ''true'' else js ''false'')\<rparr>)
              (enumerate 0 (tabs p)),
        sections := map (\<lambda>s. s\<lparr>secActive := (Some (secId s) = targetId),
                secHidden := \<not> (Some (secId s) = targetId)\<rparr>) (sections p)\<rparr>)"

text \<open>
  The remainder \<^verbatim>\<open>%\<close> of JavaScript on integers, for a positive divisor: the result has the
  sign of the dividend.
\<close>

definition jsRem :: "int \<Rightarrow> int \<Rightarrow> int" where
  "jsRem a n = (if 0 \<le> a then a mod n else - ((- a) mod n))"

text \<open>
  The keydown listener of the tab at index \<open>i\<close>; \<^verbatim>\<open>arr.indexOf(tab)\<close> is \<open>i\<close>. The result says
  whether \<^verbatim>\<open>preventDefault\<close> was called, and gives the new page. \<^verbatim>\<open>next.focus()\<close> moves the
  focus to the tab (a tab control can take the focus).
\<close>

definition tabKeydown :: "nat \<Rightarrow> jsstring \<Rightarrow> page \<Rightarrow> bool \<times> page" where
  "tabKeydown i key p =
     (if key = js ''ArrowRight'' \<or> key = js ''ArrowLeft'' then
        (let dir = (if key = js ''ArrowRight'' then 1 else - 1);
             len = int (length (tabs p));
             next = nat (jsRem (int i + dir + len) len)
         in (True, activateTab next (p\<lparr>focus := Some next\<rparr>)))
      else (False, p))"

subsection \<open>Fields\<close>

text \<open>\<^verbatim>\<open>input:not([readonly]), select, textarea\<close> and \<^verbatim>\<open>textarea.auto-list\<close>.\<close>

definition tracked :: "fieldEl \<Rightarrow> bool" where
  "tracked f = (case fieldTag f of Input \<Rightarrow> \<not> fieldReadonly f | Select \<Rightarrow> True | Textarea \<Rightarrow> True)"

definition isListArea :: "fieldEl \<Rightarrow> bool" where
  "isListArea f = (fieldTag f = Textarea \<and> fieldAutoList f)"

definition normalizeCommaNewlines :: "fieldEl \<Rightarrow> fieldEl" where
  "normalizeCommaNewlines el = el\<lparr>fieldValue := normalizeValue (fieldValue el)\<rparr>"

text \<open>\<^verbatim>\<open>listAreas.forEach((el) => normalizeCommaNewlines(el))\<close>\<close>

definition normalizeListAreas :: "fieldEl list \<Rightarrow> fieldEl list" where
  "normalizeListAreas fs = map (\<lambda>el. if isListArea el then normalizeCommaNewlines el else el) fs"

text \<open>\<^verbatim>\<open>inputs.forEach((el) => (el.disabled = d))\<close>\<close>

definition setDisabled :: "bool \<Rightarrow> fieldEl list \<Rightarrow> fieldEl list" where
  "setDisabled d fs = map (\<lambda>el. if tracked el then el\<lparr>fieldDisabled := d\<rparr> else el) fs"

text \<open>\<^verbatim>\<open>inputs[0] ? inputs[0].disabled : true\<close>\<close>

definition isDisabled :: "page \<Rightarrow> bool" where
  "isDisabled p = (case filter tracked (formFields p) of [] \<Rightarrow> True | el # _ \<Rightarrow> fieldDisabled el)"

subsection \<open>Initialization\<close>

text \<open>
  The DOMContentLoaded listener: nothing without the form; otherwise \<^verbatim>\<open>hidden\<close> of every
  section is set from its class, the list areas are normalized, the tracked fields are
  disabled, and \<open>dirty\<close> starts as false. (The section \<^verbatim>\<open>initialActive\<close>, with its fallback
  \<^verbatim>\<open>getElementById('basic-info')\<close>, is only handed to \<^verbatim>\<open>resizeTextareasIn\<close>.)
\<close>

definition init :: "page \<Rightarrow> page" where
  "init p =
     (if \<not> hasForm p then p
      else p\<lparr>sections := map (\<lambda>sec. sec\<lparr>secHidden := \<not> secActive sec\<rparr>) (sections p),
             formFields := setDisabled True (normalizeListAreas (formFields p)),
             dirty := False\<rparr>)"

subsection \<open>The listeners\<close>

text \<open>
  The browser puts the text \<open>v\<close> into the field at index \<open>i\<close> and sends the input event, which
  reaches the listener of the form.
\<close>

definition fieldInput :: "nat \<Rightarrow> jsstring \<Rightarrow> page \<Rightarrow> page" where
  "fieldInput i v p =
     (let p' = p\<lparr>formFields := (formFields p)[i := (formFields p ! i)\<lparr>fieldValue := v\<rparr>]\<rparr>
      in if \<not> dirty p' then p'\<lparr>dirty := True\<rparr> else p')"

text \<open>The blur listener of a list area, and the paste listener with its deferred callback.\<close>

definition listBlur :: "nat \<Rightarrow> page \<Rightarrow> page" where
  "listBlur i p = p\<lparr>formFields := (formFields p)[i := normalizeCommaNewlines (formFields p ! i)]\<rparr>"

definition listPaste :: "nat \<Rightarrow> page \<Rightarrow> page" where
  "listPaste i p = p\<lparr>pasteTimers := pasteTimers p @ [i]\<rparr>"

definition pasteTimerFire :: "nat \<Rightarrow> page \<Rightarrow> page" where
  "pasteTimerFire k p =
     (let i = pasteTimers p ! k
      in p\<lparr>formFields := (formFields p)[i := normalizeCommaNewlines (formFields p ! i)],
           pasteTimers := take k (pasteTimers p) @ drop (Suc k) (pasteTimers p)\<rparr>)"

text \<open>The click listener of the edit control.\<close>

definition editClick :: "page \<Rightarrow> page" where
  "editClick p =
     (let isDis = isDisabled p;
          p' = p\<lparr>formFields := setDisabled (\<not> isDis) (formFields p)\<rparr>
      in if isDis then
           p'\<lparr>editBtn := Some cancelLabel,
              saveBtn := map_option (\<lambda>_. js ''inline-block'') (saveBtn p')\<rparr>
         else
           p'\<lparr>dirty := False,
              editBtn := Some editLabel,
              saveBtn := map_option (\<lambda>_. js ''none'') (saveBtn p')\<rparr>)"

text \<open>
  The click listener of the save control. The result says whether \<^verbatim>\<open>preventDefault\<close> was
  called. \<^verbatim>\<open>form.requestSubmit ? form.requestSubmit() : form.submit()\<close> is one call.
\<close>

definition saveClick :: "page \<Rightarrow> bool \<times> page" where
  "saveClick p =
     (True,
      p\<lparr>formFields := normalizeListAreas (formFields p),
        loading := map_option (\<lambda>_. True) (loading p),
        submits := submits p @ [if hasRequestSubmit p then RequestSubmit else Submit]\<rparr>)"

text \<open>
  The beforeunload listener: whether it calls \<^verbatim>\<open>preventDefault\<close> (and sets \<^verbatim>\<open>returnValue\<close>),
  which is what makes the browser ask.
\<close>

definition beforeunload :: "page \<Rightarrow> bool" where
  "beforeunload p = (if dirty p then True else False)"

text \<open>
  An attempted unload makes the browser ask when the listener is there, that is, when the
  form is, and prevents the default.
\<close>

definition unloadPrompt :: "page \<Rightarrow> bool" where
  "unloadPrompt p = (hasForm p \<and> beforeunload p)"

subsection \<open>Events\<close>

text \<open>
  What can happen to the page after its initialization. An event on an element that is not
  there, or that has no listener, changes nothing: the listeners exist only with the form,
  those of the edit and save controls only with their control.
\<close>

datatype event =
    TabClick nat
  | TabKeydown nat jsstring
  | OtherTabClick nat
  | FieldInput nat jsstring
  | ListBlur nat
  | ListPaste nat
  | PasteTimerFire nat
  | EditClick
  | SaveClick
  | SubmitTimerFire

fun handle :: "event \<Rightarrow> page \<Rightarrow> page" where
  "handle (TabClick i) p = (if hasForm p \<and> i < length (tabs p) then activateTab i p else p)"
| "handle (TabKeydown i key) p =
     (if hasForm p \<and> i < length (tabs p) then snd (tabKeydown i key p) else p)"
| "handle (OtherTabClick i) p = p"
| "handle (FieldInput i v) p = (if hasForm p \<and> i < length (formFields p) then fieldInput i v p else p)"
| "handle (ListBlur i) p =
     (if hasForm p \<and> i < length (formFields p) \<and> isListArea (formFields p ! i) then listBlur i p else p)"
| "handle (ListPaste i) p =
     (if hasForm p \<and> i < length (formFields p) \<and> isListArea (formFields p ! i) then listPaste i p else p)"
| "handle (PasteTimerFire k) p = (if k < length (pasteTimers p) then pasteTimerFire k p else p)"
| "handle EditClick p = (if hasForm p \<and> editBtn p \<noteq> None then editClick p else p)"
| "handle SaveClick p = (if hasForm p \<and> saveBtn p \<noteq> None then snd (saveClick p) else p)"
| "handle SubmitTimerFire p = p"

definition run :: "page \<Rightarrow> event list \<Rightarrow> page" where
  "run p es = foldl (\<lambda>q e. handle e q) p es"

section \<open>The second variant of the controller\<close>

text \<open>
  The file without a name differs in these places: its tabs are all elements of class
  \<^verbatim>\<open>tab\<close>; a click on a tab removes the class \<^verbatim>\<open>active\<close> from all of them, adds it to the
  clicked one and toggles the class of the sections, and nothing else (no \<^verbatim>\<open>hidden\<close>, no
  \<^verbatim>\<open>aria-selected\<close>); there is no keydown listener, no \<open>dirty\<close> and no beforeunload listener;
  and the save listener submits with \<^verbatim>\<open>setTimeout(() => form.submit(), 300)\<close>.
\<close>

definition tabClick2 :: "nat \<Rightarrow> page \<Rightarrow> page" where
  "tabClick2 i p =
     (let targetId = tabTarget (tabs p ! i) in
      p\<lparr>tabs := map (\<lambda>(j, t). t\<lparr>tabActive := (j = i)\<rparr>) (enumerate 0 (tabs p)),
        otherTabs := map (\<lambda>t. t\<lparr>tabActive := False\<rparr>) (otherTabs p),
        sections := map (\<lambda>s. s\<lparr>secActive := (Some (secId s) = targetId)\<rparr>) (sections p)\<rparr>)"

definition otherTabClick2 :: "nat \<Rightarrow> page \<Rightarrow> page" where
  "otherTabClick2 i p =
     (let targetId = tabTarget (otherTabs p ! i) in
      p\<lparr>tabs := map (\<lambda>t. t\<lparr>tabActive := False\<rparr>) (tabs p),
        otherTabs := map (\<lambda>(j, t). t\<lparr>tabActive := (j = i)\<rparr>) (enumerate 0 (otherTabs p)),
        sections := map (\<lambda>s. s\<lparr>secActive := (Some (secId s) = targetId)\<rparr>) (sections p)\<rparr>)"

definition init2 :: "page \<Rightarrow> page" where
  "init2 p =
     (if \<not> hasForm p then p
      else p\<lparr>formFields := setDisabled True (normalizeListAreas (formFields p))\<rparr>)"

definition fieldInput2 :: "nat \<Rightarrow> jsstring \<Rightarrow> page \<Rightarrow> page" where
  "fieldInput2 i v p = p\<lparr>formFields := (formFields p)[i := (formFields p ! i)\<lparr>fieldValue := v\<rparr>]\<rparr>"

definition editClick2 :: "page \<Rightarrow> page" where
  "editClick2 p =
     (let isDis = isDisabled p;
          p' = p\<lparr>formFields := setDisabled (\<not> isDis) (formFields p)\<rparr>
      in if isDis then
           p'\<lparr>editBtn := Some cancelLabel,
              saveBtn := map_option (\<lambda>_. js ''inline-block'') (saveBtn p')\<rparr>
         else
           p'\<lparr>editBtn := Some editLabel,
              saveBtn := map_option (\<lambda>_. js ''none'') (saveBtn p')\<rparr>)"

definition saveClick2 :: "page \<Rightarrow> bool \<times> page" where
  "saveClick2 p =
     (True,
      p\<lparr>formFields := normalizeListAreas (formFields p),
        loading := map_option (\<lambda>_. True) (loading p),
        submitTimers := Suc (submitTimers p)\<rparr>)"

text \<open>One pending \<^verbatim>\<open>() => form.submit()\<close> runs.\<close>

definition submitTimerFire2 :: "page \<Rightarrow> page" where
  "submitTimerFire2 p = p\<lparr>submitTimers := submitTimers p - 1, submits := submits p @ [Submit]\<rparr>"

fun handle2 :: "event \<Rightarrow> page \<Rightarrow> page" where
  "handle2 (TabClick i) p = (if hasForm p \<and> i < length (tabs p) then tabClick2 i p else p)"
| "handle2 (TabKeydown i key) p = p"
| "handle2 (OtherTabClick i) p =
     (if hasForm p \<and> i < length (otherTabs p) then otherTabClick2 i p else p)"
| "handle2 (FieldInput i v) p =
     (if hasForm p \<and> i < length (formFields p) then fieldInput2 i v p else p)"
| "handle2 (ListBlur i) p =
     (if hasForm p \<and> i < length (formFields p) \<and> isListArea (formFields p ! i) then listBlur i p else p)"
| "handle2 (ListPaste i) p =
     (if hasForm p \<and> i < length (formFields p) \<and> isListArea (formFields p ! i) then listPaste i p else p)"
| "handle2 (PasteTimerFire k) p = (if k < length (pasteTimers p) then pasteTimerFire k p else p)"
| "handle2 EditClick p = (if hasForm p \<and> editBtn p \<noteq> None then editClick2 p else p)"
| "handle2 SaveClick p = (if hasForm p \<and> saveBtn p \<noteq> None then snd (saveClick2 p) else p)"
| "handle2 SubmitTimerFire p = (if 0 < submitTimers p then submitTimerFire2 p else p)"

definition run2 :: "page \<Rightarrow> event list \<Rightarrow> page" where
  "run2 p es = foldl (\<lambda>q e. handle2 e q) p es"

section \<open>Properties of texts\<close>

text \<open>Three LF in a row somewhere in the text.\<close>

fun hasTripleLF :: "jsstring \<Rightarrow> bool" where
  "hasTripleLF (a # b # c # cs) = ((a = LF \<and> b = LF \<and> c = LF) \<or> hasTripleLF (b # c # cs))"
| "hasTripleLF cs = False"



text \<open>White space at the first or at the last place of the text.\<close>

definition edgeSpace :: "jsstring \<Rightarrow> bool" where
  "edgeSpace s = (case s of [] \<Rightarrow> False | c # cs \<Rightarrow> isSpace c \<or> isSpace (last s))"

text \<open>
  What the second replacement leaves behind every comma: one LF, and then the end of the
  text or a character that is no white space.
\<close>

fun commaSettled :: "jsstring \<Rightarrow> bool" where
  "commaSettled [] = True"
| "commaSettled (c # cs) =
     ((if c = COMMA then
         (case cs of [] \<Rightarrow> False
          | d # ds \<Rightarrow> d = LF \<and> (case ds of [] \<Rightarrow> True | e # _ \<Rightarrow> \<not> isSpace e))
       else True) \<and> commaSettled cs)"

text \<open>
  What is behind every comma of the final value: nothing (the comma is the last character),
  or one LF and then a character that is no white space.
\<close>

fun commasFollowed :: "jsstring \<Rightarrow> bool" where
  "commasFollowed [] = True"
| "commasFollowed (c # cs) =
     ((if c = COMMA then
         (case cs of [] \<Rightarrow> True
          | d # ds \<Rightarrow> d = LF \<and> (case ds of [] \<Rightarrow> False | e # _ \<Rightarrow> \<not> isSpace e))
       else True) \<and> commasFollowed cs)"

text \<open>
  Every comma is followed at once by LF, and that LF is not followed by a second one.
\<close>

fun commaThenOneLF :: "jsstring \<Rightarrow> bool" where
  "commaThenOneLF [] = True"
| "commaThenOneLF (c # cs) =
     ((if c = COMMA then
         (case cs of [] \<Rightarrow> False
          | d # ds \<Rightarrow> d = LF \<and> (case ds of [] \<Rightarrow> True | e # _ \<Rightarrow> e \<noteq> LF))
       else True) \<and> commaThenOneLF cs)"

text \<open>The number of LF a text starts with.\<close>

definition leadLF :: "jsstring \<Rightarrow> nat" where
  "leadLF s = length (takeWhile (\<lambda>d. d = LF) s)"

text \<open>Trimming at the end, by recursion from the left.\<close>

fun trimEnd :: "jsstring \<Rightarrow> jsstring" where
  "trimEnd [] = []"
| "trimEnd (c # cs) = (if list_all isSpace (c # cs) then [] else c # trimEnd cs)"

section \<open>Properties of pages\<close>






text \<open>
  A page with three tabs and their sections, a form with a read-only name, two more fields
  and one list area, and all three controls.
\<close>

definition examplePage :: page where
  "examplePage =
     \<lparr>hasForm = True, hasRequestSubmit = True,
      tabs = [\<lparr>tabTarget = Some (js ''basic-info''), tabActive = True, tabSelected = Some (js ''true'')\<rparr>,
              \<lparr>tabTarget = Some (js ''career''), tabActive = False, tabSelected = Some (js ''false'')\<rparr>,
              \<lparr>tabTarget = Some (js ''skills''), tabActive = False, tabSelected = Some (js ''false'')\<rparr>],
      otherTabs = [\<lparr>tabTarget = None, tabActive = False, tabSelected = None\<rparr>],
      sections = [\<lparr>secId = js ''basic-info'', secActive = True, secHidden = False\<rparr>,
                  \<lparr>secId = js ''career'', secActive = False, secHidden = False\<rparr>,
                  \<lparr>secId = js ''skills'', secActive = False, secHidden = False\<rparr>],
      formFields = [\<lparr>fieldTag = Input, fieldReadonly = True, fieldAutoList = False,
                      fieldAutoGrow = False, fieldValue = js ''Kim'', fieldDisabled = False\<rparr>,
                    \<lparr>fieldTag = Input, fieldReadonly = False, fieldAutoList = False,
                      fieldAutoGrow = False, fieldValue = js ''kim@example.org'', fieldDisabled = False\<rparr>,
                    \<lparr>fieldTag = Textarea, fieldReadonly = False, fieldAutoList = True,
                      fieldAutoGrow = True, fieldValue = js ''a, b, c'', fieldDisabled = False\<rparr>,
                    \<lparr>fieldTag = Select, fieldReadonly = False, fieldAutoList = False,
                      fieldAutoGrow = False, fieldValue = js ''1'', fieldDisabled = False\<rparr>],
      editBtn = Some editLabel, saveBtn = Some (js ''none''), loading = Some False,
      focus = None, dirty = False, pasteTimers = [], submitTimers = 0, submits = []\<rparr>"


text \<open>
  All tracked fields have \<^verbatim>\<open>disabled\<close> equal to \<open>d\<close>.
\<close>

definition allTracked :: "bool \<Rightarrow> page \<Rightarrow> bool" where
  "allTracked d p = list_all (\<lambda>el. fieldDisabled el = d) (filter tracked (formFields p))"

text \<open>
  The two modes of the form: every tracked field is disabled; there is a tracked field and
  every tracked field is enabled.
\<close>

definition locked :: "page \<Rightarrow> bool" where
  "locked p = allTracked True p"

definition editing :: "page \<Rightarrow> bool" where
  "editing p = (filter tracked (formFields p) \<noteq> [] \<and> allTracked False p)"

text \<open>
  The input events.
\<close>

definition isFieldInput :: "event \<Rightarrow> bool" where
  "isFieldInput e = (case e of FieldInput i v \<Rightarrow> True | _ \<Rightarrow> False)"

text \<open>
  The form of a normalized value.
\<close>

definition normalForm :: "jsstring \<Rightarrow> bool" where
  "normalForm v = (commasFollowed v \<and> \<not> hasTripleLF v \<and> \<not> edgeSpace v)"

text \<open>
  What both variants of the controller write in the same way.
\<close>

definition common ::
  "page \<Rightarrow> bool \<times> bool list \<times> jsstring option list \<times> bool list \<times> jsstring list \<times>
     fieldEl list \<times> jsstring option \<times> jsstring option \<times> bool option \<times> nat list" where
  "common p =
     (hasForm p, map tabActive (tabs p), map tabTarget (tabs p), map secActive (sections p),
      map secId (sections p), formFields p, editBtn p, saveBtn p, loading p, pasteTimers p)"

text \<open>
  The events that both variants listen to in the same way: all but the arrow keys (only the
  first variant listens) and a click on a tab without \<^verbatim>\<open>role="tab"\<close> (only the second one does).
\<close>

definition shared :: "event \<Rightarrow> bool" where
  "shared e = (case e of TabKeydown i key \<Rightarrow> False | OtherTabClick i \<Rightarrow> False | _ \<Rightarrow> True)"


section \<open>Lemmas on the four steps of the normalization\<close>

lemma isSpace_LF [simp]: "isSpace LF"
  by (simp add: isSpace_def LF_def)
lemma isSpace_CR [simp]: "isSpace CR"
  by (simp add: isSpace_def CR_def)
lemma not_isSpace_COMMA [simp]: "\<not> isSpace COMMA"
  by (simp add: isSpace_def COMMA_def)
lemma COMMA_neq_LF [simp]: "COMMA \<noteq> LF" "LF \<noteq> COMMA"
  by (simp_all add: COMMA_def LF_def)

lemma replaceCommaSpaces_Cons:
  "replaceCommaSpaces (c # cs) =
     (if c = COMMA then COMMA # LF # replaceCommaSpaces (dropWhile isSpace cs)
      else c # replaceCommaSpaces cs)"
  by (simp add: matchSpacesNotLF_greedy)

declare replaceCommaSpaces.simps(2) [simp del]

lemma trimEnd_rev: "rev (dropWhile isSpace (rev s)) = trimEnd s"
proof (induction s)
  case Nil
  show ?case by simp
next
  case (Cons c cs)
  show ?case
  proof (cases "list_all isSpace cs")
    case True
    then have a: "\<And>x. x \<in> set (rev cs) \<Longrightarrow> isSpace x"
      by (simp add: list_all_iff)
    have "dropWhile isSpace (rev cs @ [c]) = dropWhile isSpace [c]"
      by (rule dropWhile_append2) (rule a)
    then have "rev (dropWhile isSpace (rev (c # cs))) = (if isSpace c then [] else [c])"
      by simp
    moreover have "trimEnd cs = []" using True by (cases cs) simp_all
    ultimately show ?thesis using True by simp
  next
    case False
    then obtain x where "x \<in> set (rev cs)" "\<not> isSpace x"
      by (auto simp: list_all_iff)
    then have "dropWhile isSpace (rev cs @ [c]) = dropWhile isSpace (rev cs) @ [c]"
      by (rule dropWhile_append1)
    then have "rev (dropWhile isSpace (rev (c # cs))) = c # rev (dropWhile isSpace (rev cs))"
      by simp
    with False Cons show ?thesis by simp
  qed
qed

lemma trim_alt: "trim s = trimEnd (dropWhile isSpace s)"
  by (simp add: trim_def trimEnd_rev)



lemma hasTripleLF_Cons: "hasTripleLF cs \<Longrightarrow> hasTripleLF (c # cs)"
  by (cases cs rule: hasTripleLF.cases) auto

lemma replaceCRLF_hd:
  "replaceCRLF (d # cs) = (if d = CR \<and> cs \<noteq> [] \<and> hd cs = LF then LF # replaceCRLF (tl cs) else d # replaceCRLF cs)"
  by (cases cs) auto




lemma hd_replaceCommaSpaces: "hd (replaceCommaSpaces s) = hd s"
  by (cases s) (simp_all add: replaceCommaSpaces_Cons)

lemma commaSettled_dropWhile: "commaSettled s \<Longrightarrow> commaSettled (dropWhile P s)"
  by (induction s) (auto split: if_splits)

lemma commasFollowed_dropWhile: "commasFollowed s \<Longrightarrow> commasFollowed (dropWhile P s)"
  by (induction s) (auto split: if_splits)



lemma dropWhile_isSpace_hd: "dropWhile isSpace s \<noteq> [] \<Longrightarrow> \<not> isSpace (hd (dropWhile isSpace s))"
  using hd_dropWhile[of isSpace s] by simp

lemma commaSettled_replaceCommaSpaces: "commaSettled (replaceCommaSpaces x)"
proof (induction x rule: replaceCommaSpaces.induct)
  case 1
  show ?case by simp
next
  case (2 c cs)
  show ?case
  proof (cases "c = COMMA")
    case True
    let ?r = "dropWhile isSpace cs"
    have ih: "commaSettled (replaceCommaSpaces ?r)"
      by (rule "2.IH"(2)[OF True matchSpacesNotLF_greedy])
    have "case replaceCommaSpaces ?r of [] \<Rightarrow> True | e # _ \<Rightarrow> \<not> isSpace e"
    proof (cases "replaceCommaSpaces ?r")
      case Nil
      show ?thesis unfolding Nil by simp
    next
      case (Cons e es)
      have ne: "?r \<noteq> []"
      proof
        assume "?r = []"
        then have "replaceCommaSpaces ?r = []" by (simp only: replaceCommaSpaces.simps)
        with Cons show False by simp
      qed
      have "e = hd ?r" using Cons hd_replaceCommaSpaces[of ?r] by simp
      with ne Cons show ?thesis using dropWhile_isSpace_hd[of cs] by simp
    qed
    with ih True show ?thesis by (simp add: replaceCommaSpaces_Cons)
  next
    case False
    with "2.IH"(3) show ?thesis by (simp add: replaceCommaSpaces_Cons)
  qed
qed



lemma trimEnd_Nil_iff [simp]: "trimEnd s = [] \<longleftrightarrow> list_all isSpace s"
  by (cases s) simp_all

lemma trimEnd_last: "trimEnd s \<noteq> [] \<Longrightarrow> \<not> isSpace (last (trimEnd s))"
proof (induction s)
  case Nil
  then show ?case by simp
next
  case (Cons c cs)
  show ?case
  proof (cases "list_all isSpace cs")
    case True
    with Cons.prems show ?thesis by (auto split: if_splits)
  next
    case False
    with Cons.IH show ?thesis by simp
  qed
qed

lemma hd_trimEnd: "trimEnd s \<noteq> [] \<Longrightarrow> hd (trimEnd s) = hd s"
  by (cases s) (auto split: if_splits)

lemma not_edgeSpace_trim: "\<not> edgeSpace (trim s)"
proof (cases "trim s")
  case Nil
  then show ?thesis by (simp add: edgeSpace_def)
next
  case (Cons c cs)
  let ?d = "dropWhile isSpace s"
  have ne: "trimEnd ?d \<noteq> []" using Cons by (simp add: trim_alt)
  have dne: "?d \<noteq> []"
  proof
    assume "?d = []"
    then have "trimEnd ?d = []" by (simp only: trimEnd.simps)
    with ne show False by simp
  qed
  have "hd (trimEnd ?d) = hd ?d" using ne by (rule hd_trimEnd)
  then have "\<not> isSpace (hd (trim s))"
    using dropWhile_isSpace_hd[OF dne] by (simp add: trim_alt)
  moreover have "\<not> isSpace (last (trim s))"
    using trimEnd_last[OF ne] by (simp add: trim_alt)
  ultimately show ?thesis using Cons by (simp add: edgeSpace_def)
qed

lemma commasFollowed_trimEnd: "commaSettled s \<Longrightarrow> commasFollowed (trimEnd s)"
proof (induction s)
  case Nil
  show ?case by simp
next
  case (Cons c cs)
  then have ih: "commasFollowed (trimEnd cs)" by simp
  show ?case
  proof (cases "list_all isSpace (c # cs)")
    case True
    then show ?thesis by simp
  next
    case False
    show ?thesis
    proof (cases "c = COMMA")
      case nc: False
      with False ih show ?thesis by simp
    next
      case True
      with Cons.prems obtain ds where cs: "cs = LF # ds" and
        ds: "case ds of [] \<Rightarrow> True | e # _ \<Rightarrow> \<not> isSpace e"
        by (cases cs) auto
      show ?thesis
      proof (cases ds)
        case Nil
        with cs True show ?thesis by simp
      next
        case c2: (Cons e r)
        with ds have "\<not> isSpace e" by simp
        with cs c2 True ih show ?thesis by simp
      qed
    qed
  qed
qed

lemma commasFollowed_trim: "commaSettled s \<Longrightarrow> commasFollowed (trim s)"
  unfolding trim_alt by (rule commasFollowed_trimEnd[OF commaSettled_dropWhile])






lemma leadLF_simps [simp]:
  "leadLF [] = 0"
  "leadLF (c # cs) = (if c = LF then Suc (leadLF cs) else 0)"
  by (simp_all add: leadLF_def)

lemma collapseNewlines_Cons:
  "collapseNewlines (c # cs) =
     (if c = LF \<and> 2 \<le> leadLF cs
      then LF # LF # collapseNewlines (dropWhile (\<lambda>d. d = LF) cs)
      else c # collapseNewlines cs)"
  by (auto simp: leadLF_def)

declare collapseNewlines.simps(2) [simp del]

lemma collapseNewlines_keep:
  "\<not> (c = LF \<and> 2 \<le> leadLF cs) \<Longrightarrow> collapseNewlines (c # cs) = c # collapseNewlines cs"
  by (auto simp: collapseNewlines_Cons)

lemma collapseNewlines_run:
  "c = LF \<and> 2 \<le> leadLF cs \<Longrightarrow>
   collapseNewlines (c # cs) = LF # LF # collapseNewlines (dropWhile (\<lambda>d. d = LF) cs)"
  by (auto simp: collapseNewlines_Cons)

lemma leadLF_dropWhile [simp]: "leadLF (dropWhile (\<lambda>d. d = LF) s) = 0"
  by (induction s) simp_all

lemma collapseNewlines_Nil_iff [simp]: "collapseNewlines s = [] \<longleftrightarrow> s = []"
  by (cases s) (simp_all add: collapseNewlines_Cons)

lemma hd_collapseNewlines: "hd (collapseNewlines s) = hd s"
  by (cases s) (simp_all add: collapseNewlines_Cons)

lemma leadLF_collapseNewlines: "leadLF (collapseNewlines s) = min 2 (leadLF s)"
proof (induction s rule: collapseNewlines.induct)
  case 1
  show ?case by simp
next
  case (2 c cs)
  show ?case
  proof (cases "c = LF \<and> 2 \<le> leadLF cs")
    case True
    then have t: "3 \<le> length (takeWhile (\<lambda>d. d = LF) (c # cs))" by (simp add: leadLF_def)
    have "leadLF (collapseNewlines (dropWhile (\<lambda>d. d = LF) cs)) = 0"
      using "2.IH"(1)[OF t] by simp
    with True show ?thesis by (simp add: collapseNewlines_Cons)
  next
    case False
    then have t: "\<not> 3 \<le> length (takeWhile (\<lambda>d. d = LF) (c # cs))" by (auto simp: leadLF_def)
    have "leadLF (collapseNewlines cs) = min 2 (leadLF cs)" by (rule "2.IH"(2)[OF t])
    with False show ?thesis by (auto simp: collapseNewlines_Cons)
  qed
qed

lemma hasTripleLF_Cons_iff:
  "hasTripleLF (c # t) = ((c = LF \<and> 2 \<le> leadLF t) \<or> hasTripleLF t)"
proof (cases t)
  case Nil
  then show ?thesis by simp
next
  case (Cons a u)
  then show ?thesis by (cases u) auto
qed

lemma not_hasTripleLF_collapseNewlines: "\<not> hasTripleLF (collapseNewlines s)"
proof (induction s rule: collapseNewlines.induct)
  case 1
  show ?case by simp
next
  case (2 c cs)
  show ?case
  proof (cases "c = LF \<and> 2 \<le> leadLF cs")
    case True
    then have t: "3 \<le> length (takeWhile (\<lambda>d. d = LF) (c # cs))" by (simp add: leadLF_def)
    let ?r = "collapseNewlines (dropWhile (\<lambda>d. d = LF) cs)"
    have ih: "\<not> hasTripleLF ?r" by (rule "2.IH"(1)[OF t])
    have l: "leadLF ?r = 0" by (simp add: leadLF_collapseNewlines)
    have "\<not> hasTripleLF (LF # ?r)" using ih l by (simp add: hasTripleLF_Cons_iff)
    then have "\<not> hasTripleLF (LF # LF # ?r)" using l by (simp add: hasTripleLF_Cons_iff[of LF "LF # ?r"])
    with True show ?thesis by (simp add: collapseNewlines_Cons)
  next
    case False
    then have t: "\<not> 3 \<le> length (takeWhile (\<lambda>d. d = LF) (c # cs))" by (auto simp: leadLF_def)
    have ih: "\<not> hasTripleLF (collapseNewlines cs)" by (rule "2.IH"(2)[OF t])
    have "\<not> (c = LF \<and> 2 \<le> leadLF (collapseNewlines cs))"
      using False by (simp add: leadLF_collapseNewlines)
    with ih have "\<not> hasTripleLF (c # collapseNewlines cs)"
      by (simp only: hasTripleLF_Cons_iff[of c] simp_thms)
    then show ?thesis by (simp add: collapseNewlines_keep[OF False])
  qed
qed


lemma last_dropWhile: "dropWhile P xs \<noteq> [] \<Longrightarrow> last (dropWhile P xs) = last xs"
  by (induction xs) (auto split: if_splits)

lemma last_collapseNewlines: "last (collapseNewlines s) = last s"
proof (induction s rule: collapseNewlines.induct)
  case 1
  show ?case by simp
next
  case (2 c cs)
  show ?case
  proof (cases "c = LF \<and> 2 \<le> leadLF cs")
    case True
    then have t: "3 \<le> length (takeWhile (\<lambda>d. d = LF) (c # cs))" by (simp add: leadLF_def)
    let ?d = "dropWhile (\<lambda>d. d = LF) cs"
    have ih: "last (collapseNewlines ?d) = last ?d" by (rule "2.IH"(1)[OF t])
    from True have cne: "cs \<noteq> []" by auto
    show ?thesis
    proof (cases "?d = []")
      case dn: True
      then have "\<forall>x\<in>set cs. x = LF" by (simp add: dropWhile_eq_Nil_conv)
      moreover have "last cs \<in> set cs" using cne by (rule last_in_set)
      ultimately have "last cs = LF" by blast
      then have "last (c # cs) = LF" using cne by simp
      moreover have "collapseNewlines (c # cs) = [LF, LF]"
        unfolding collapseNewlines_run[OF True] dn by simp
      ultimately show ?thesis by simp
    next
      case dn: False
      then have "last ?d = last cs" by (rule last_dropWhile)
      moreover have "collapseNewlines ?d \<noteq> []" using dn by (simp only: collapseNewlines_Nil_iff not_False_eq_True)
      ultimately have "last (LF # LF # collapseNewlines ?d) = last (c # cs)"
        using ih cne by auto
      then show ?thesis by (simp only: collapseNewlines_run[OF True])
    qed
  next
    case False
    then have t: "\<not> 3 \<le> length (takeWhile (\<lambda>d. d = LF) (c # cs))" by (auto simp: leadLF_def)
    have "last (collapseNewlines cs) = last cs" by (rule "2.IH"(2)[OF t])
    then show ?thesis by (simp add: collapseNewlines_keep[OF False])
  qed
qed

lemma not_edgeSpace_collapseNewlines: "\<not> edgeSpace s \<Longrightarrow> \<not> edgeSpace (collapseNewlines s)"
proof (cases s)
  case Nil
  then show ?thesis by (simp add: edgeSpace_def)
next
  case (Cons c cs)
  assume ne: "\<not> edgeSpace s"
  obtain e es where ce: "collapseNewlines s = e # es"
    using Cons by (cases "collapseNewlines s") simp_all
  have "e = hd s" using hd_collapseNewlines[of s] ce by simp
  moreover have "last (e # es) = last s" using last_collapseNewlines[of s] ce by simp
  ultimately show ?thesis using ne Cons ce by (simp add: edgeSpace_def)
qed

lemma commasFollowed_collapseNewlines:
  "commasFollowed s \<Longrightarrow> commasFollowed (collapseNewlines s)"
proof (induction s rule: collapseNewlines.induct)
  case 1
  show ?case by simp
next
  case (2 c cs)
  show ?case
  proof (cases "c = LF \<and> 2 \<le> leadLF cs")
    case True
    then have t: "3 \<le> length (takeWhile (\<lambda>d. d = LF) (c # cs))" by (simp add: leadLF_def)
    let ?d = "dropWhile (\<lambda>d. d = LF) cs"
    from "2.prems" have "commasFollowed cs" by simp
    then have "commasFollowed ?d" by (rule commasFollowed_dropWhile)
    then have "commasFollowed (collapseNewlines ?d)" by (rule "2.IH"(1)[OF t])
    with True show ?thesis by (simp add: collapseNewlines_Cons)
  next
    case False
    then have t: "\<not> 3 \<le> length (takeWhile (\<lambda>d. d = LF) (c # cs))" by (auto simp: leadLF_def)
    from "2.prems" have "commasFollowed cs" by simp
    then have ih: "commasFollowed (collapseNewlines cs)" by (rule "2.IH"(2)[OF t])
    have eq: "collapseNewlines (c # cs) = c # collapseNewlines cs"
      by (rule collapseNewlines_keep[OF False])
    show ?thesis
    proof (cases "c = COMMA")
      case nc: False
      with ih eq show ?thesis by simp
    next
      case True
      show ?thesis
      proof (cases cs)
        case Nil
        with True eq show ?thesis by simp
      next
        case c1: (Cons d ds)
        with True "2.prems" obtain e r where ds: "ds = e # r" and d: "d = LF" and e: "\<not> isSpace e"
          by (cases ds) auto
        from e have "e \<noteq> LF" by auto
        then have "collapseNewlines cs = LF # e # collapseNewlines r"
          using c1 ds d by (simp add: collapseNewlines_Cons)
        with True eq ih e show ?thesis by simp
      qed
    qed
  qed
qed


lemma commasFollowed_normalizeValue: "commasFollowed (normalizeValue v)"
  unfolding normalizeValue_def
  by (intro commasFollowed_collapseNewlines commasFollowed_trim commaSettled_replaceCommaSpaces)

lemma not_edgeSpace_normalizeValue: "\<not> edgeSpace (normalizeValue v)"
  unfolding normalizeValue_def
  by (intro not_edgeSpace_collapseNewlines not_edgeSpace_trim)

lemma not_hasTripleLF_normalizeValue: "\<not> hasTripleLF (normalizeValue v)"
  unfolding normalizeValue_def by (rule not_hasTripleLF_collapseNewlines)



section \<open>Lemmas on the controller\<close>

lemma tabs_activateTab_targets [simp]:
  "map tabTarget (tabs (activateTab i p)) = map tabTarget (tabs p)"
proof -
  have "map tabTarget (tabs (activateTab i p)) = map (tabTarget \<circ> snd) (enumerate 0 (tabs p))"
    by (simp add: activateTab_def Let_def comp_def case_prod_unfold)
  also have "\<dots> = map tabTarget (tabs p)"
    by (simp flip: map_map)
  finally show ?thesis .
qed

lemma tabs_activateTab_active:
  "map tabActive (tabs (activateTab i p)) = map (\<lambda>j. j = i) [0..<length (tabs p)]"
proof -
  have "map tabActive (tabs (activateTab i p)) = map ((\<lambda>j. j = i) \<circ> fst) (enumerate 0 (tabs p))"
    by (simp add: activateTab_def Let_def comp_def case_prod_unfold)
  also have "\<dots> = map (\<lambda>j. j = i) [0..<length (tabs p)]"
    by (simp flip: map_map)
  finally show ?thesis .
qed

lemma secIds_activateTab [simp]:
  "map secId (sections (activateTab i p)) = map secId (sections p)"
  by (simp add: activateTab_def Let_def comp_def)






lemma jsRem_next:
  assumes "i < n"
  shows "nat (jsRem (int i + 1 + int n) (int n)) = (i + 1) mod n"
proof -
  have "int i + 1 + int n = int (i + 1 + n)" by simp
  then have "jsRem (int i + 1 + int n) (int n) = int ((i + 1 + n) mod n)"
    unfolding jsRem_def by (simp only: zmod_int of_nat_0_le_iff if_True)
  moreover have "(i + 1 + n) mod n = (i + 1) mod n" by (rule mod_add_self2)
  ultimately show ?thesis by (simp only: nat_int)
qed

lemma jsRem_prev:
  assumes "i < n"
  shows "nat (jsRem (int i + - 1 + int n) (int n)) = (i + n - 1) mod n"
proof -
  have "int i + - 1 + int n = int (i + n - 1)" using assms by (simp add: of_nat_diff)
  then have "jsRem (int i + - 1 + int n) (int n) = int ((i + n - 1) mod n)"
    unfolding jsRem_def by (simp only: zmod_int of_nat_0_le_iff if_True)
  then show ?thesis by simp
qed

lemma ArrowRight_neq_ArrowLeft: "js ''ArrowRight'' \<noteq> js ''ArrowLeft''"
  by (simp add: js_def)

lemma tabKeydown_right:
  "i < length (tabs p) \<Longrightarrow>
   tabKeydown i (js ''ArrowRight'') p =
     (True, activateTab ((i + 1) mod length (tabs p)) (p\<lparr>focus := Some ((i + 1) mod length (tabs p))\<rparr>))"
  by (simp add: tabKeydown_def Let_def jsRem_next)

lemma tabKeydown_left:
  "i < length (tabs p) \<Longrightarrow>
   tabKeydown i (js ''ArrowLeft'') p =
     (True, activateTab ((i + length (tabs p) - 1) mod length (tabs p))
        (p\<lparr>focus := Some ((i + length (tabs p) - 1) mod length (tabs p))\<rparr>))"
  using jsRem_prev[of i "length (tabs p)"]
  by (simp add: tabKeydown_def Let_def ArrowRight_neq_ArrowLeft[symmetric])

lemma tabKeydown_other:
  "key \<noteq> js ''ArrowRight'' \<Longrightarrow> key \<noteq> js ''ArrowLeft'' \<Longrightarrow> tabKeydown i key p = (False, p)"
  by (simp add: tabKeydown_def)












lemma tracked_update [simp]: "tracked (el\<lparr>fieldDisabled := d\<rparr>) = tracked el"
  by (simp add: tracked_def split: tagName.split)

lemma filter_tracked_setDisabled:
  "filter tracked (setDisabled d fs) = map (\<lambda>el. el\<lparr>fieldDisabled := d\<rparr>) (filter tracked fs)"
  by (induction fs) (simp_all add: setDisabled_def)

lemma values_setDisabled: "map fieldValue (setDisabled d fs) = map fieldValue fs"
  by (induction fs) (simp_all add: setDisabled_def)

lemma untracked_setDisabled:
  "filter (\<lambda>el. \<not> tracked el) (setDisabled d fs) = filter (\<lambda>el. \<not> tracked el) fs"
  by (induction fs) (simp_all add: setDisabled_def)

lemma allTracked_setDisabled: "allTracked d (p\<lparr>formFields := setDisabled d (formFields p)\<rparr>)"
  by (simp add: allTracked_def filter_tracked_setDisabled list.pred_map comp_def list.pred_True)

lemma isDisabled_locked: "locked p \<Longrightarrow> isDisabled p"
  by (cases "filter tracked (formFields p)") (simp_all add: locked_def allTracked_def isDisabled_def)

lemma isDisabled_editing: "editing p \<Longrightarrow> \<not> isDisabled p"
  by (cases "filter tracked (formFields p)") (simp_all add: editing_def allTracked_def isDisabled_def)

lemma editClick_enter:
  assumes "isDisabled p"
  shows "editClick p = p\<lparr>formFields := setDisabled False (formFields p),
           editBtn := Some cancelLabel,
           saveBtn := map_option (\<lambda>_. js ''inline-block'') (saveBtn p)\<rparr>"
  using assms by (simp add: editClick_def Let_def)

lemma editClick_cancel:
  assumes "\<not> isDisabled p"
  shows "editClick p = p\<lparr>formFields := setDisabled True (formFields p),
           dirty := False,
           editBtn := Some editLabel,
           saveBtn := map_option (\<lambda>_. js ''none'') (saveBtn p)\<rparr>"
  using assms by (simp add: editClick_def Let_def)

lemma editClick2_enter:
  assumes "isDisabled p"
  shows "editClick2 p = p\<lparr>formFields := setDisabled False (formFields p),
           editBtn := Some cancelLabel,
           saveBtn := map_option (\<lambda>_. js ''inline-block'') (saveBtn p)\<rparr>"
  using assms by (simp add: editClick2_def Let_def)

lemma editClick2_cancel:
  assumes "\<not> isDisabled p"
  shows "editClick2 p = p\<lparr>formFields := setDisabled True (formFields p),
           editBtn := Some editLabel,
           saveBtn := map_option (\<lambda>_. js ''none'') (saveBtn p)\<rparr>"
  using assms by (simp add: editClick2_def Let_def)

lemma allTracked_frame: "formFields q = formFields p \<Longrightarrow> allTracked d q = allTracked d p"
  by (simp add: allTracked_def)

lemma editing_enter: "locked p \<Longrightarrow> allTracked False (editClick p)"
  using allTracked_setDisabled[of False p]
  by (simp add: editClick_enter[OF isDisabled_locked] allTracked_def)

lemma locked_cancel: "editing p \<Longrightarrow> allTracked True (editClick p)"
  using allTracked_setDisabled[of True p]
  by (simp add: editClick_cancel[OF isDisabled_editing] allTracked_def)

lemma editing_enter2: "locked p \<Longrightarrow> allTracked False (editClick2 p)"
  using allTracked_setDisabled[of False p]
  by (simp add: editClick2_enter[OF isDisabled_locked] allTracked_def)

lemma locked_cancel2: "editing p \<Longrightarrow> allTracked True (editClick2 p)"
  using allTracked_setDisabled[of True p]
  by (simp add: editClick2_cancel[OF isDisabled_editing] allTracked_def)

lemma dirty_fieldInput: "dirty (fieldInput i v p)"
  by (simp add: fieldInput_def Let_def)

lemma dirty_activateTab [simp]: "dirty (activateTab i p) = dirty p"
  by (simp add: activateTab_def Let_def)

lemma dirty_tabKeydown [simp]: "dirty (snd (tabKeydown i key p)) = dirty p"
  by (simp add: tabKeydown_def Let_def)

lemma dirty_editClick_le: "dirty (editClick p) \<Longrightarrow> dirty p"
  by (simp add: editClick_def Let_def split: if_splits)

lemma not_dirty_handle:
  assumes "\<not> dirty p" "\<not> isFieldInput e"
  shows "\<not> dirty (handle e p)"
proof (cases e)
  case (FieldInput i v)
  with assms(2) show ?thesis by (simp add: isFieldInput_def)
next
  case EditClick
  with assms(1) show ?thesis using dirty_editClick_le[of p] by auto
qed (use assms(1) in \<open>simp_all add: listBlur_def listPaste_def pasteTimerFire_def Let_def saveClick_def\<close>)

lemma not_dirty_run:
  "\<not> dirty p \<Longrightarrow> list_all (\<lambda>e. \<not> isFieldInput e) es \<Longrightarrow> \<not> dirty (run p es)"
  unfolding run_def by (induction es arbitrary: p) (simp_all add: not_dirty_handle)

lemma normalForm_normalizeValue: "normalForm (normalizeValue v)"
  by (simp add: normalForm_def commasFollowed_normalizeValue not_hasTripleLF_normalizeValue
      not_edgeSpace_normalizeValue)

lemma isListArea_normalize [simp]: "isListArea (normalizeCommaNewlines el) = isListArea el"
  by (simp add: isListArea_def normalizeCommaNewlines_def)

lemma normalizeListAreas_nth:
  "i < length fs \<Longrightarrow>
   normalizeListAreas fs ! i = (if isListArea (fs ! i) then normalizeCommaNewlines (fs ! i) else fs ! i)"
  by (simp add: normalizeListAreas_def)

lemma normalizeListAreas_normal:
  "list_all (\<lambda>el. isListArea el \<longrightarrow> normalForm (fieldValue el)) (normalizeListAreas fs)"
  by (induction fs)
     (auto simp: normalizeListAreas_def normalizeCommaNewlines_def normalForm_normalizeValue
        isListArea_def)

lemma tabs_tabClick2_targets:
  "map tabTarget (tabs (tabClick2 i p)) = map tabTarget (tabs p)"
proof -
  have "map tabTarget (tabs (tabClick2 i p)) = map (tabTarget \<circ> snd) (enumerate 0 (tabs p))"
    by (simp add: tabClick2_def Let_def comp_def case_prod_unfold)
  also have "\<dots> = map tabTarget (tabs p)"
    by (simp flip: map_map)
  finally show ?thesis .
qed

lemma tabs_tabClick2_active:
  "map tabActive (tabs (tabClick2 i p)) = map (\<lambda>j. j = i) [0..<length (tabs p)]"
proof -
  have "map tabActive (tabs (tabClick2 i p)) = map ((\<lambda>j. j = i) \<circ> fst) (enumerate 0 (tabs p))"
    by (simp add: tabClick2_def Let_def comp_def case_prod_unfold)
  also have "\<dots> = map (\<lambda>j. j = i) [0..<length (tabs p)]"
    by (simp flip: map_map)
  finally show ?thesis .
qed

lemma secActive_activateTab:
  "map secActive (sections (activateTab i p)) =
     map (\<lambda>x. Some x = tabTarget (tabs p ! i)) (map secId (sections p))"
  by (simp add: activateTab_def Let_def comp_def)

lemma secActive_tabClick2:
  "map secActive (sections (tabClick2 i p)) =
     map (\<lambda>x. Some x = tabTarget (tabs p ! i)) (map secId (sections p))"
  by (simp add: tabClick2_def Let_def comp_def)

lemma secIds_tabClick2: "map secId (sections (tabClick2 i p)) = map secId (sections p)"
  by (simp add: tabClick2_def Let_def comp_def)

lemma common_tabClick:
  assumes c: "common p = common q" and i: "i < length (tabs p)"
  shows "common (activateTab i p) = common (tabClick2 i q)"
proof -
  from c have l: "length (tabs p) = length (tabs q)"
    by (auto simp: common_def dest: map_eq_imp_length_eq)
  from c have "map tabTarget (tabs p) ! i = map tabTarget (tabs q) ! i"
    by (simp add: common_def)
  then have t: "tabTarget (tabs p ! i) = tabTarget (tabs q ! i)"
    using i l by simp
  have r: "hasForm (activateTab i p) = hasForm p" "formFields (activateTab i p) = formFields p"
    "editBtn (activateTab i p) = editBtn p" "saveBtn (activateTab i p) = saveBtn p"
    "loading (activateTab i p) = loading p" "pasteTimers (activateTab i p) = pasteTimers p"
    by (simp_all add: activateTab_def Let_def)
  have r2: "hasForm (tabClick2 i q) = hasForm q" "formFields (tabClick2 i q) = formFields q"
    "editBtn (tabClick2 i q) = editBtn q" "saveBtn (tabClick2 i q) = saveBtn q"
    "loading (tabClick2 i q) = loading q" "pasteTimers (tabClick2 i q) = pasteTimers q"
    by (simp_all add: tabClick2_def Let_def)
  show ?thesis
    using c l t unfolding common_def
    by (simp add: r r2 tabs_activateTab_active tabs_tabClick2_active tabs_tabClick2_targets
        secActive_activateTab secActive_tabClick2 secIds_tabClick2)
qed

lemma common_frame:
  assumes "common p = common q"
    and "hasForm p' = hasForm p" "tabs p' = tabs p" "sections p' = sections p"
    and "hasForm q' = hasForm q" "tabs q' = tabs q" "sections q' = sections q"
    and "formFields p' = formFields q'" "editBtn p' = editBtn q'" "saveBtn p' = saveBtn q'"
    and "loading p' = loading q'" "pasteTimers p' = pasteTimers q'"
  shows "common p' = common q'"
  using assms by (simp add: common_def)

lemma common_handle:
  assumes c: "common p = common q" and s: "shared e"
  shows "common (handle e p) = common (handle2 e q)"
proof -
  from c have h: "hasForm p = hasForm q" and f: "formFields p = formFields q"
    and eb: "editBtn p = editBtn q" and sb: "saveBtn p = saveBtn q"
    and lo: "loading p = loading q" and pt: "pasteTimers p = pasteTimers q"
    by (simp_all add: common_def)
  from c have l: "length (tabs p) = length (tabs q)"
    by (auto simp: common_def dest: map_eq_imp_length_eq)
  have d: "isDisabled p = isDisabled q" by (simp add: isDisabled_def f)
  show ?thesis
  proof (cases e)
    case (TabClick i)
    then show ?thesis using c h l common_tabClick[OF c, of i] by simp
  next
    case (TabKeydown i key)
    with s show ?thesis by (simp add: shared_def)
  next
    case (OtherTabClick i)
    with s show ?thesis by (simp add: shared_def)
  next
    case (FieldInput i v)
    have "common (fieldInput i v p) = common (fieldInput2 i v q)"
      by (rule common_frame[OF c]) (simp_all add: fieldInput_def fieldInput2_def Let_def f eb sb lo pt)
    then show ?thesis using FieldInput c h f by simp
  next
    case (ListBlur i)
    have "common (listBlur i p) = common (listBlur i q)"
      by (rule common_frame[OF c]) (simp_all add: listBlur_def f eb sb lo pt)
    then show ?thesis using ListBlur c h f by simp
  next
    case (ListPaste i)
    have "common (listPaste i p) = common (listPaste i q)"
      by (rule common_frame[OF c]) (simp_all add: listPaste_def f eb sb lo pt)
    then show ?thesis using ListPaste c h f by simp
  next
    case (PasteTimerFire k)
    have "common (pasteTimerFire k p) = common (pasteTimerFire k q)"
      by (rule common_frame[OF c]) (simp_all add: pasteTimerFire_def Let_def f eb sb lo pt)
    then show ?thesis using PasteTimerFire c pt by simp
  next
    case EditClick
    have "common (editClick p) = common (editClick2 q)"
      by (rule common_frame[OF c]) (simp_all add: editClick_def editClick2_def Let_def d f eb sb lo pt)
    then show ?thesis using EditClick c h eb by auto
  next
    case SaveClick
    have "common (snd (saveClick p)) = common (snd (saveClick2 q))"
      by (rule common_frame[OF c]) (simp_all add: saveClick_def saveClick2_def f eb sb lo pt)
    then show ?thesis using SaveClick c h sb by auto
  next
    case SubmitTimerFire
    have "common q = common (submitTimerFire2 q)"
      by (rule common_frame[OF refl]) (simp_all add: submitTimerFire2_def)
    then show ?thesis using SubmitTimerFire c by simp
  qed
qed

lemma common_run:
  "common p = common q \<Longrightarrow> list_all shared es \<Longrightarrow> common (run p es) = common (run2 q es)"
  unfolding run_def run2_def
  by (induction es arbitrary: p q) (simp_all add: common_handle)

lemma common_init: "common (init p) = common (init2 p)"
  by (simp add: common_def init_def init2_def comp_def)

section \<open>The claims on normalizeCommaNewlines\<close>

text \<open>
  Claim C2, as the code has it. For every value, in the value written back by
  normalizeCommaNewlines every comma is either the last character or is followed at once
  by exactly one newline and then by a character that is no white space; and the value
  \<^verbatim>\<open>"a, b,\nc"\<close> is normalized to \<^verbatim>\<open>"a,\nb,\nc"\<close>. (A comma at the end of the value gets its
  newline from the second replacement and loses it again to \<^verbatim>\<open>trim()\<close>, which is why the
  claim as it is stated, with a newline behind every comma, fails.)
\<close>

theorem C2_commas_followed_by_one_newline:
  "commasFollowed (normalizeValue v) \<and>
   normalizeValue (js ''a, b,'' @ [LF] @ js ''c'') = js ''a,'' @ [LF] @ js ''b,'' @ [LF] @ js ''c''"
proof
  show "commasFollowed (normalizeValue v)"
    by (rule commasFollowed_normalizeValue)
  show "normalizeValue (js ''a, b,'' @ [LF] @ js ''c'')
      = js ''a,'' @ [LF] @ js ''b,'' @ [LF] @ js ''c''"
    by code_simp
qed

theorem C2_commas_followed_by_one_newline_witness:
  "commasFollowed (normalizeValue (js ''x ,  y,'' @ [LF, LF] @ js ''z,''))"
  by (rule conjunct1[OF C2_commas_followed_by_one_newline])

text \<open>
  The value \<^verbatim>\<open>"a,"\<close> is written back unchanged: its comma is followed by no newline.
\<close>

theorem C2_trailing_comma_counterexample:
  "normalizeValue (js ''a,'') = js ''a,'' \<and> \<not> commaThenOneLF (normalizeValue (js ''a,''))"
  by code_simp




text \<open>
  Claim C4. For every value, the value written back by normalizeCommaNewlines holds no
  three newlines in a row and has no white space at its first or last place; and the value
  \<^verbatim>\<open>"a\n\n\n\nb"\<close> is normalized to \<^verbatim>\<open>"a\n\nb"\<close>.
\<close>

theorem C4_no_triple_newline_and_trimmed:
  "\<not> hasTripleLF (normalizeValue v) \<and> \<not> edgeSpace (normalizeValue v) \<and>
   normalizeValue (js ''a'' @ [LF, LF, LF, LF] @ js ''b'') = js ''a'' @ [LF, LF] @ js ''b''"
proof (intro conjI)
  show "\<not> hasTripleLF (normalizeValue v)"
    by (rule not_hasTripleLF_normalizeValue)
  show "\<not> edgeSpace (normalizeValue v)"
    by (rule not_edgeSpace_normalizeValue)
  show "normalizeValue (js ''a'' @ [LF, LF, LF, LF] @ js ''b'') = js ''a'' @ [LF, LF] @ js ''b''"
    by code_simp
qed

theorem C4_no_triple_newline_and_trimmed_witness:
  "\<not> hasTripleLF (normalizeValue (js '' a'' @ [LF, LF, LF, CR, LF] @ js ''b,  ''))
   \<and> \<not> edgeSpace (normalizeValue (js '' a'' @ [LF, LF, LF, CR, LF] @ js ''b,  ''))"
  using C4_no_triple_newline_and_trimmed[of "js '' a'' @ [LF, LF, LF, CR, LF] @ js ''b,  ''"]
  by blast

section \<open>The claims on the controller\<close>




text \<open>
  Claim C5. A click on the edit control while every tracked field (every input without the
  readonly attribute, every select and every textarea of the form) is disabled enables
  every tracked field, sets the label of the control to the cancel label and sets the
  display of the save control to \<^verbatim>\<open>inline-block\<close>. A click while the form has tracked fields
  and all of them are enabled disables every tracked field, sets \<open>dirty\<close> to false, sets the
  label to the edit label (so a page that started with this label gets it back after the
  two clicks) and sets the display of the save control to \<^verbatim>\<open>none\<close>. Neither click changes
  the value of a field. The second variant does the same, without \<open>dirty\<close>, which it does
  not have. (A select or a textarea is tracked with or without the readonly attribute; with
  no tracked field at all the listener always takes the first branch.)
\<close>

theorem C5_edit_toggle:
  "(locked p \<longrightarrow>
      allTracked False (editClick p) \<and>
      editBtn (editClick p) = Some cancelLabel \<and>
      saveBtn (editClick p) = map_option (\<lambda>_. js ''inline-block'') (saveBtn p) \<and>
      map fieldValue (formFields (editClick p)) = map fieldValue (formFields p) \<and>
      allTracked False (editClick2 p) \<and>
      editBtn (editClick2 p) = Some cancelLabel \<and>
      saveBtn (editClick2 p) = map_option (\<lambda>_. js ''inline-block'') (saveBtn p) \<and>
      map fieldValue (formFields (editClick2 p)) = map fieldValue (formFields p)) \<and>
   (editing p \<longrightarrow>
      allTracked True (editClick p) \<and>
      dirty (editClick p) = False \<and>
      editBtn (editClick p) = Some editLabel \<and>
      saveBtn (editClick p) = map_option (\<lambda>_. js ''none'') (saveBtn p) \<and>
      map fieldValue (formFields (editClick p)) = map fieldValue (formFields p) \<and>
      allTracked True (editClick2 p) \<and>
      editBtn (editClick2 p) = Some editLabel \<and>
      saveBtn (editClick2 p) = map_option (\<lambda>_. js ''none'') (saveBtn p) \<and>
      map fieldValue (formFields (editClick2 p)) = map fieldValue (formFields p)) \<and>
   (locked p \<and> filter tracked (formFields p) \<noteq> [] \<and> editBtn p = Some editLabel \<longrightarrow>
      editing (editClick p) \<and>
      editBtn (editClick (editClick p)) = editBtn p \<and>
      map fieldValue (formFields (editClick (editClick p))) = map fieldValue (formFields p))"
proof (intro conjI impI)
  assume l: "locked p"
  note e = editClick_enter[OF isDisabled_locked[OF l]]
  note e2 = editClick2_enter[OF isDisabled_locked[OF l]]
  show "allTracked False (editClick p)"
    using l by (rule editing_enter)
  show "editBtn (editClick p) = Some cancelLabel"
    by (simp add: e)
  show "saveBtn (editClick p) = map_option (\<lambda>_. js ''inline-block'') (saveBtn p)"
    by (simp add: e)
  show "map fieldValue (formFields (editClick p)) = map fieldValue (formFields p)"
    by (simp add: e values_setDisabled)
  show "allTracked False (editClick2 p)"
    using l by (rule editing_enter2)
  show "editBtn (editClick2 p) = Some cancelLabel"
    by (simp add: e2)
  show "saveBtn (editClick2 p) = map_option (\<lambda>_. js ''inline-block'') (saveBtn p)"
    by (simp add: e2)
  show "map fieldValue (formFields (editClick2 p)) = map fieldValue (formFields p)"
    by (simp add: e2 values_setDisabled)
next
  assume l: "editing p"
  note e = editClick_cancel[OF isDisabled_editing[OF l]]
  note e2 = editClick2_cancel[OF isDisabled_editing[OF l]]
  show "allTracked True (editClick p)"
    using l by (rule locked_cancel)
  show "dirty (editClick p) = False"
    by (simp add: e)
  show "editBtn (editClick p) = Some editLabel"
    by (simp add: e)
  show "saveBtn (editClick p) = map_option (\<lambda>_. js ''none'') (saveBtn p)"
    by (simp add: e)
  show "map fieldValue (formFields (editClick p)) = map fieldValue (formFields p)"
    by (simp add: e values_setDisabled)
  show "allTracked True (editClick2 p)"
    using l by (rule locked_cancel2)
  show "editBtn (editClick2 p) = Some editLabel"
    by (simp add: e2)
  show "saveBtn (editClick2 p) = map_option (\<lambda>_. js ''none'') (saveBtn p)"
    by (simp add: e2)
  show "map fieldValue (formFields (editClick2 p)) = map fieldValue (formFields p)"
    by (simp add: e2 values_setDisabled)
next
  assume a: "locked p \<and> filter tracked (formFields p) \<noteq> [] \<and> editBtn p = Some editLabel"
  then have l: "locked p" and n: "filter tracked (formFields p) \<noteq> []"
    and b: "editBtn p = Some editLabel"
    by simp_all
  note e = editClick_enter[OF isDisabled_locked[OF l]]
  have "filter tracked (formFields (editClick p)) \<noteq> []"
    using n by (simp add: e filter_tracked_setDisabled)
  then show ed: "editing (editClick p)"
    using editing_enter[OF l] by (simp add: editing_def)
  note c = editClick_cancel[OF isDisabled_editing[OF ed]]
  show "editBtn (editClick (editClick p)) = editBtn p"
    by (simp add: c b)
  have "map fieldValue (formFields (editClick (editClick p)))
      = map fieldValue (formFields (editClick p))"
    by (simp add: c values_setDisabled)
  then show "map fieldValue (formFields (editClick (editClick p))) = map fieldValue (formFields p)"
    by (simp add: e values_setDisabled)
qed

theorem C5_edit_toggle_witness:
  "locked (init examplePage) \<and>
   allTracked False (editClick (init examplePage)) \<and>
   editBtn (editClick (init examplePage)) = Some cancelLabel \<and>
   editing (editClick (init examplePage)) \<and>
   allTracked True (editClick (editClick (init examplePage))) \<and>
   dirty (editClick (editClick (init examplePage))) = False \<and>
   editBtn (editClick (editClick (init examplePage))) = Some editLabel"
proof -
  have l: "locked (init examplePage)"
    by code_simp
  have e: "editing (editClick (init examplePage))"
    by code_simp
  from l e C5_edit_toggle[of "init examplePage"] C5_edit_toggle[of "editClick (init examplePage)"]
  show ?thesis
    by blast
qed

text \<open>
  Claim C6. An input event on a field of the form (so on a tracked field in edit mode)
  sets \<open>dirty\<close> to true. While \<open>dirty\<close> is true the beforeunload listener prevents the
  default, which makes the browser ask at every attempted unload. After a click on the
  edit control in edit mode \<open>dirty\<close> is false and an attempted unload does not make the
  browser ask, and this stays so over every sequence of events without an input event.
\<close>

theorem C6_dirty_and_unload_prompt:
  "(hasForm p \<and> i < length (formFields p) \<longrightarrow> dirty (handle (FieldInput i v) p)) \<and>
   (hasForm p \<and> dirty p \<longrightarrow> beforeunload p \<and> unloadPrompt p) \<and>
   (editing p \<longrightarrow>
      \<not> dirty (editClick p) \<and> \<not> unloadPrompt (editClick p) \<and>
      (list_all (\<lambda>e. \<not> isFieldInput e) es \<longrightarrow> \<not> unloadPrompt (run (editClick p) es)))"
proof (intro conjI impI)
  assume "hasForm p \<and> i < length (formFields p)"
  then show "dirty (handle (FieldInput i v) p)"
    by (simp add: dirty_fieldInput)
next
  assume a: "hasForm p \<and> dirty p"
  then show "beforeunload p"
    by (simp add: beforeunload_def)
  from a show "unloadPrompt p"
    by (simp add: unloadPrompt_def beforeunload_def)
next
  assume e: "editing p"
  show nd: "\<not> dirty (editClick p)"
    by (simp add: editClick_cancel[OF isDisabled_editing[OF e]])
  then show "\<not> unloadPrompt (editClick p)"
    by (simp add: unloadPrompt_def beforeunload_def)
  assume "list_all (\<lambda>e. \<not> isFieldInput e) es"
  with nd have "\<not> dirty (run (editClick p) es)"
    by (rule not_dirty_run)
  then show "\<not> unloadPrompt (run (editClick p) es)"
    by (simp add: unloadPrompt_def beforeunload_def)
qed

theorem C6_dirty_and_unload_prompt_witness:
  "dirty (handle (FieldInput 1 (js ''x'')) (editClick (init examplePage))) \<and>
   unloadPrompt (handle (FieldInput 1 (js ''x'')) (editClick (init examplePage))) \<and>
   \<not> dirty (editClick (handle (FieldInput 1 (js ''x'')) (editClick (init examplePage)))) \<and>
   \<not> unloadPrompt (run (editClick (handle (FieldInput 1 (js ''x'')) (editClick (init examplePage))))
        [TabClick 1, EditClick, SaveClick])"
proof -
  let ?p = "editClick (init examplePage)"
  let ?q = "handle (FieldInput 1 (js ''x'')) ?p"
  have h1: "hasForm ?p \<and> 1 < length (formFields ?p)"
    by code_simp
  have h2: "editing ?q \<and> hasForm ?q"
    by code_simp
  have h3: "list_all (\<lambda>e. \<not> isFieldInput e) [TabClick 1, EditClick, SaveClick]"
    by code_simp
  from h1 C6_dirty_and_unload_prompt[of ?p 1 "js ''x''" "[]"] have d: "dirty ?q"
    by blast
  from d h2 h3 C6_dirty_and_unload_prompt[of ?q 1 "js ''x''" "[TabClick 1, EditClick, SaveClick]"]
  show ?thesis
    by blast
qed

text \<open>
  Claim C7. The click listener of the save control prevents the default, replaces the
  value of every list area by its normalized value (after which every list area is in
  normal form) and leaves every other field as it is, adds the class active to the loading
  indicator, and requests the submission of the form exactly once: the first variant
  calls requestSubmit or submit once, at once; the second variant starts one timer and
  submits nothing itself, and the timer calls submit once.
\<close>

theorem C7_save_submits_once:
  "fst (saveClick p) \<and>
   length (formFields (snd (saveClick p))) = length (formFields p) \<and>
   (\<forall>i < length (formFields p).
      formFields (snd (saveClick p)) ! i =
        (if isListArea (formFields p ! i) then normalizeCommaNewlines (formFields p ! i)
         else formFields p ! i)) \<and>
   list_all (\<lambda>el. isListArea el \<longrightarrow> normalForm (fieldValue el)) (formFields (snd (saveClick p))) \<and>
   loading (snd (saveClick p)) = map_option (\<lambda>_. True) (loading p) \<and>
   (\<exists>c. submits (snd (saveClick p)) = submits p @ [c]) \<and>
   length (submits (snd (saveClick p))) = length (submits p) + 1 \<and>
   submitTimers (snd (saveClick p)) = submitTimers p \<and>
   fst (saveClick2 p) \<and>
   formFields (snd (saveClick2 p)) = formFields (snd (saveClick p)) \<and>
   loading (snd (saveClick2 p)) = map_option (\<lambda>_. True) (loading p) \<and>
   submits (snd (saveClick2 p)) = submits p \<and>
   submitTimers (snd (saveClick2 p)) = submitTimers p + 1 \<and>
   submits (handle2 SubmitTimerFire (snd (saveClick2 p))) = submits p @ [Submit] \<and>
   submitTimers (handle2 SubmitTimerFire (snd (saveClick2 p))) = submitTimers p"
  by (simp add: saveClick_def saveClick2_def submitTimerFire2_def normalizeListAreas_nth
      normalizeListAreas_normal) (simp add: normalizeListAreas_def)

theorem C7_save_submits_once_witness:
  "fst (saveClick (editClick (init examplePage))) \<and>
   fieldValue (formFields (snd (saveClick (run (init examplePage)
       [EditClick, FieldInput 2 (js ''x, y,'')]))) ! 2) = js ''x,'' @ [LF] @ js ''y,'' \<and>
   loading (snd (saveClick (editClick (init examplePage)))) = Some True \<and>
   submits (snd (saveClick (editClick (init examplePage)))) = [RequestSubmit] \<and>
   submits (handle2 SubmitTimerFire (snd (saveClick2 (editClick2 (init2 examplePage))))) = [Submit]"
proof -
  let ?p = "run (init examplePage) [EditClick, FieldInput 2 (js ''x, y,'')]"
  have h: "2 < length (formFields ?p) \<and> isListArea (formFields ?p ! 2)"
    by code_simp
  have v: "fieldValue (normalizeCommaNewlines (formFields ?p ! 2)) = js ''x,'' @ [LF] @ js ''y,''"
    by code_simp
  have "formFields (snd (saveClick ?p)) ! 2 = normalizeCommaNewlines (formFields ?p ! 2)"
    using h C7_save_submits_once[of ?p] by simp
  with v have 1: "fieldValue (formFields (snd (saveClick ?p)) ! 2) = js ''x,'' @ [LF] @ js ''y,''"
    by simp
  have 2: "fst (saveClick (editClick (init examplePage)))"
    using C7_save_submits_once[of "editClick (init examplePage)"] by blast
  have 3: "loading (snd (saveClick (editClick (init examplePage)))) = Some True"
    by code_simp
  have 4: "submits (snd (saveClick (editClick (init examplePage)))) = [RequestSubmit]"
    by code_simp
  have 5: "submits (handle2 SubmitTimerFire (snd (saveClick2 (editClick2 (init2 examplePage)))))
      = [Submit]"
    by code_simp
  from 1 2 3 4 5 show ?thesis
    by blast
qed

text \<open>
  Claim C8. For the tab at index \<open>i\<close> of the \<open>n\<close> tabs, ArrowRight moves the focus to the tab
  at index \<open>(i + 1) mod n\<close> and activates it, ArrowLeft does so with the tab at index
  \<open>(i - 1 + n) mod n\<close>; so ArrowRight on the last tab goes to the first one and ArrowLeft on
  the first tab to the last one. Both keys prevent the default; every other key leaves the
  page as it is and prevents nothing.
\<close>

theorem C8_arrow_keys_wrap:
  assumes "i < length (tabs p)"
  shows "fst (tabKeydown i (js ''ArrowRight'') p) \<and>
     focus (snd (tabKeydown i (js ''ArrowRight'') p)) = Some ((i + 1) mod length (tabs p)) \<and>
     snd (tabKeydown i (js ''ArrowRight'') p) =
       activateTab ((i + 1) mod length (tabs p)) (p\<lparr>focus := Some ((i + 1) mod length (tabs p))\<rparr>) \<and>
     map tabActive (tabs (snd (tabKeydown i (js ''ArrowRight'') p))) =
       map (\<lambda>j. j = (i + 1) mod length (tabs p)) [0..<length (tabs p)] \<and>
     fst (tabKeydown i (js ''ArrowLeft'') p) \<and>
     focus (snd (tabKeydown i (js ''ArrowLeft'') p)) =
       Some ((i + length (tabs p) - 1) mod length (tabs p)) \<and>
     snd (tabKeydown i (js ''ArrowLeft'') p) =
       activateTab ((i + length (tabs p) - 1) mod length (tabs p))
         (p\<lparr>focus := Some ((i + length (tabs p) - 1) mod length (tabs p))\<rparr>) \<and>
     map tabActive (tabs (snd (tabKeydown i (js ''ArrowLeft'') p))) =
       map (\<lambda>j. j = (i + length (tabs p) - 1) mod length (tabs p)) [0..<length (tabs p)] \<and>
     (i = length (tabs p) - 1 \<longrightarrow> focus (snd (tabKeydown i (js ''ArrowRight'') p)) = Some 0) \<and>
     (i = 0 \<longrightarrow> focus (snd (tabKeydown i (js ''ArrowLeft'') p)) = Some (length (tabs p) - 1)) \<and>
     (key \<noteq> js ''ArrowRight'' \<and> key \<noteq> js ''ArrowLeft'' \<longrightarrow> tabKeydown i key p = (False, p))"
proof -
  let ?n = "length (tabs p)"
  have f: "\<And>k q. focus (activateTab k q) = focus q"
    by (simp add: activateTab_def Let_def)
  have a: "\<And>k f. map tabActive (tabs (activateTab k (p\<lparr>focus := f\<rparr>))) = map (\<lambda>j. j = k) [0..<?n]"
    by (simp add: tabs_activateTab_active)
  have n: "0 < ?n"
    using assms by (cases "tabs p") simp_all
  have w1: "(i + 1) mod ?n = 0" if "i = ?n - 1"
  proof -
    have "i + 1 = ?n"
      using that n by simp
    then show ?thesis
      by simp
  qed
  have w2: "(i + ?n - 1) mod ?n = ?n - 1" if "i = 0"
    using that n by simp
  show ?thesis
    unfolding tabKeydown_right[OF assms] tabKeydown_left[OF assms]
    using w1 w2 by (simp add: f a tabKeydown_other)
qed

theorem C8_arrow_keys_wrap_witness:
  "focus (snd (tabKeydown 2 (js ''ArrowRight'') (init examplePage))) = Some 0 \<and>
   focus (snd (tabKeydown 0 (js ''ArrowLeft'') (init examplePage))) = Some 2 \<and>
   tabKeydown 1 (js ''Enter'') (init examplePage) = (False, init examplePage)"
proof -
  let ?p = "init examplePage"
  have n: "length (tabs ?p) = 3"
    by code_simp
  have h2: "2 < length (tabs ?p)" and h0: "0 < length (tabs ?p)" and h1: "1 < length (tabs ?p)"
    by (simp_all add: n)
  have k: "js ''Enter'' \<noteq> js ''ArrowRight'' \<and> js ''Enter'' \<noteq> js ''ArrowLeft''"
    by code_simp
  have "2 = length (tabs ?p) - 1"
    by (simp add: n)
  with C8_arrow_keys_wrap[OF h2, of "js ''Enter''"]
  have 1: "focus (snd (tabKeydown 2 (js ''ArrowRight'') ?p)) = Some 0"
    by blast
  from C8_arrow_keys_wrap[OF h0, of "js ''Enter''"]
  have "focus (snd (tabKeydown 0 (js ''ArrowLeft'') ?p)) = Some (length (tabs ?p) - 1)"
    by blast
  then have 2: "focus (snd (tabKeydown 0 (js ''ArrowLeft'') ?p)) = Some 2"
    by (simp add: n)
  from k C8_arrow_keys_wrap[OF h1, of "js ''Enter''"]
  have 3: "tabKeydown 1 (js ''Enter'') ?p = (False, ?p)"
    by blast
  from 1 2 3 show ?thesis
    by blast
qed

text \<open>
  Claim C9, as the code has it. The two variants are not equivalent. They agree on what
  both of them write: from the same page, after the same events other than arrow keys and
  clicks on tabs without \<^verbatim>\<open>role="tab"\<close>, the class active of the tabs and of the sections, all
  fields with their values and disabled flags, the label of the edit control, the display
  of the save control, the class of the loading indicator and the pending paste callbacks
  are the same. (Only the first variant writes hidden and aria-selected, moves the focus,
  has \<open>dirty\<close> and the beforeunload listener, and submits at once; the second variant
  submits from a timer.)
\<close>

theorem C9_variants_agree_on_shared_part:
  "list_all shared es \<Longrightarrow> common (run (init p) es) = common (run2 (init2 p) es)"
  by (rule common_run[OF common_init])

theorem C9_variants_agree_on_shared_part_witness:
  "list_all shared [TabClick 1, EditClick, FieldInput 2 (js ''x, y''), ListBlur 2, SaveClick,
     SubmitTimerFire] \<and>
   common (run (init examplePage)
     [TabClick 1, EditClick, FieldInput 2 (js ''x, y''), ListBlur 2, SaveClick, SubmitTimerFire])
   = common (run2 (init2 examplePage)
     [TabClick 1, EditClick, FieldInput 2 (js ''x, y''), ListBlur 2, SaveClick, SubmitTimerFire])"
proof -
  have h: "list_all shared [TabClick 1, EditClick, FieldInput 2 (js ''x, y''), ListBlur 2,
      SaveClick, SubmitTimerFire]"
    by code_simp
  from h C9_variants_agree_on_shared_part[OF h, of examplePage] show ?thesis
    by blast
qed

text \<open>
  On the page of the example the first variant hides the two sections that are not active
  and the second one hides none; after a click on the edit and on the save control the
  first variant has called requestSubmit and the second one has submitted nothing yet; and
  ArrowRight on the first tab activates the second tab in the first variant only.
\<close>

theorem C9_variants_differ_counterexample:
  "map secHidden (sections (run (init examplePage) [])) = [False, True, True] \<and>
   map secHidden (sections (run2 (init2 examplePage) [])) = [False, False, False] \<and>
   submits (run (init examplePage) [EditClick, SaveClick]) = [RequestSubmit] \<and>
   submits (run2 (init2 examplePage) [EditClick, SaveClick]) = [] \<and>
   map tabActive (tabs (run (init examplePage) [TabKeydown 0 (js ''ArrowRight'')]))
     = [False, True, False] \<and>
   map tabActive (tabs (run2 (init2 examplePage) [TabKeydown 0 (js ''ArrowRight'')]))
     = [True, False, False] \<and>
   run (init examplePage) [EditClick, SaveClick] \<noteq> run2 (init2 examplePage) [EditClick, SaveClick]"
proof -
  have 1: "map secHidden (sections (run (init examplePage) [])) = [False, True, True]"
    by code_simp
  have 2: "map secHidden (sections (run2 (init2 examplePage) [])) = [False, False, False]"
    by code_simp
  have 3: "submits (run (init examplePage) [EditClick, SaveClick]) = [RequestSubmit]"
    by code_simp
  have 4: "submits (run2 (init2 examplePage) [EditClick, SaveClick]) = []"
    by code_simp
  have 5: "map tabActive (tabs (run (init examplePage) [TabKeydown 0 (js ''ArrowRight'')]))
      = [False, True, False]"
    by code_simp
  have 6: "map tabActive (tabs (run2 (init2 examplePage) [TabKeydown 0 (js ''ArrowRight'')]))
      = [True, False, False]"
    by code_simp
  have 7: "run (init examplePage) [EditClick, SaveClick]
      \<noteq> run2 (init2 examplePage) [EditClick, SaveClick]"
  proof
    assume "run (init examplePage) [EditClick, SaveClick]
      = run2 (init2 examplePage) [EditClick, SaveClick]"
    then have "submits (run (init examplePage) [EditClick, SaveClick])
      = submits (run2 (init2 examplePage) [EditClick, SaveClick])"
      by (rule arg_cong)
    with 3 4 show False
      by simp
  qed
  from 1 2 3 4 5 6 7 show ?thesis
    by blast
qed

text \<open>
  Claim C10. The click listener of the save control does not write \<open>dirty\<close>: when \<open>dirty\<close> is
  true at the click, it is true after the list areas are normalized, the loading indicator
  is activated and the submission is requested, and the beforeunload listener still
  prevents the default, so that an unload still makes the browser ask.
\<close>

theorem C10_save_keeps_dirty:
  "dirty (snd (saveClick p)) = dirty p \<and>
   dirty (handle SaveClick p) = dirty p \<and>
   (dirty p \<longrightarrow> dirty (snd (saveClick p)) \<and> beforeunload (snd (saveClick p))) \<and>
   (hasForm p \<and> dirty p \<longrightarrow> unloadPrompt (handle SaveClick p))"
  by (simp add: saveClick_def beforeunload_def unloadPrompt_def)

theorem C10_save_keeps_dirty_witness:
  "dirty (run (init examplePage) [EditClick, FieldInput 1 (js ''x'')]) \<and>
   dirty (snd (saveClick (run (init examplePage) [EditClick, FieldInput 1 (js ''x'')]))) \<and>
   beforeunload (snd (saveClick (run (init examplePage) [EditClick, FieldInput 1 (js ''x'')]))) \<and>
   unloadPrompt (handle SaveClick (run (init examplePage) [EditClick, FieldInput 1 (js ''x'')]))"
proof -
  have d: "dirty (run (init examplePage) [EditClick, FieldInput 1 (js ''x'')]) \<and>
      hasForm (run (init examplePage) [EditClick, FieldInput 1 (js ''x'')])"
    by code_simp
  from d C10_save_keeps_dirty[of "run (init examplePage) [EditClick, FieldInput 1 (js ''x'')]"]
  show ?thesis
    by blast
qed

end
